theory Spec2Isabelle
  imports Main "HOL-Library.AList" "HOL-Library.Sublist"
begin

section \<open>Values, errors and the key-value store interface\<close>

text \<open>
  The worker (src/index.ts) exposes tools over Cloudflare KV namespaces that it reaches
  through the bindings of its environment object. A thrown JavaScript exception or a
  rejected promise is a value \<open>Inl e\<close>; a handler that returns normally gives
  \<open>Inr r\<close>. Every store call may change the outside world, so each operation takes
  the world \<open>'w\<close> and returns the new one.
\<close>

datatype error =
    UnknownNamespace string   \<comment> \<open>the \<open>Error\<close> thrown by \<open>resolveKV\<close>, with its message\<close>
  | TypeError string          \<comment> \<open>a method read on \<open>undefined\<close>; the argument is the method\<close>
  | StoreFault string         \<comment> \<open>a store operation rejected by the platform\<close>
  | InvalidArguments string   \<comment> \<open>the input schema rejected the arguments\<close>

text \<open>Side metadata of an entry: a flat JSON object; \<open>None\<close> is \<open>undefined\<close>.\<close>

type_synonym metadata = "(string \<times> string option) list"

text \<open>The result of \<open>kv.list\<close>; the key objects are represented by their \<open>name\<close>.\<close>

record list_result =
  keys :: "string list"
  list_complete :: bool
  cursor :: "string option"

text \<open>
  A \<open>KVNamespace\<close> is an external collaborator: nothing is assumed about what its
  operations answer. \<open>kv_list kv prefix cursor limit\<close>, \<open>kv_get kv key\<close> and
  \<open>kv_put kv key value metadata\<close> are \<open>kv.list\<close>, \<open>kv.get\<close> and \<open>kv.put\<close>.
\<close>

record 'w KVNamespace =
  kv_list :: "string option \<Rightarrow> string option \<Rightarrow> nat option \<Rightarrow> 'w \<Rightarrow> (error + list_result) \<times> 'w"
  kv_get :: "string \<Rightarrow> 'w \<Rightarrow> (error + string option) \<times> 'w"
  kv_put :: "string \<Rightarrow> string \<Rightarrow> metadata option \<Rightarrow> 'w \<Rightarrow> (error + unit) \<times> 'w"

text \<open>
  The environment is the platform's object; its bindings are a parameter. \<open>env k\<close> is
  the namespace bound under the own property \<open>k\<close>, and every own property is taken to
  hold a namespace, as the interface \<open>Env\<close> declares. The object is an ordinary one:
  besides its own properties it has the members that every object inherits from
  \<open>Object.prototype\<close> (see \<open>env_has\<close> and \<open>env_index\<close> below). So \<open>env k = None\<close>
  means that \<open>env[k]\<close> is not a namespace: it is \<open>undefined\<close> or an inherited member.
\<close>

type_synonym 'w Env = "string \<Rightarrow> 'w KVNamespace option"

text \<open>
  The handlers read bindings with \<open>(env as any)[key] as KVNamespace\<close>, a cast that lets
  every value through. A value that is not a namespace (\<open>None\<close>) is \<open>undefined\<close> or
  a member of \<open>Object.prototype\<close>; neither has a \<open>list\<close>, \<open>get\<close> or \<open>put\<close>
  method, so the method call throws a \<open>TypeError\<close> before anything reaches a store.
\<close>

definition call_list ::
  "'w KVNamespace option \<Rightarrow> string option \<Rightarrow> string option \<Rightarrow> nat option \<Rightarrow> 'w
     \<Rightarrow> (error + list_result) \<times> 'w" where
  "call_list h pfx cur lim w =
     (case h of None \<Rightarrow> (Inl (TypeError ''list''), w)
              | Some kv \<Rightarrow> kv_list kv pfx cur lim w)"

definition call_get ::
  "'w KVNamespace option \<Rightarrow> string \<Rightarrow> 'w \<Rightarrow> (error + string option) \<times> 'w" where
  "call_get h k w =
     (case h of None \<Rightarrow> (Inl (TypeError ''get''), w)
              | Some kv \<Rightarrow> kv_get kv k w)"

definition call_put ::
  "'w KVNamespace option \<Rightarrow> string \<Rightarrow> string \<Rightarrow> metadata option \<Rightarrow> 'w \<Rightarrow> (error + unit) \<times> 'w" where
  "call_put h k v m w =
     (case h of None \<Rightarrow> (Inl (TypeError ''put''), w)
              | Some kv \<Rightarrow> kv_put kv k v m w)"

section \<open>The static tables (env.ts)\<close>

text \<open>The bindings that the interface \<open>Env\<close> declares, in declaration order.\<close>

definition Env_bindings :: "string list" where
  "Env_bindings =
    [''BRIDGE_ACCOUNTS'',
     ''KV_COURT_OF_APPEAL'', ''KV_CHANCERY'', ''KV_ADMIN_COURT'', ''KV_KINGS_BENCH'',
     ''KV_SUPREME'', ''KV_CLERKENWELL'', ''KV_CENTRAL_LONDON'',
     ''KV_LIU'', ''KV_HK_LAW'', ''KV_LESSEL'', ''KV_LETTING_AGENTS'', ''KV_BARRISTERS'',
     ''KV_GLD'', ''KV_US_STATE_DEPT'', ''KV_ESTONIA'',
     ''KV_HMCTS'', ''KV_ICO'', ''KV_PHSO'', ''KV_BAR_STANDARDS'', ''KV_PARLIAMENT'']"

text \<open>Human-readable namespace name to binding key, in the order of the object literal.\<close>

definition NAMESPACE_MAP :: "(string \<times> string) list" where
  "NAMESPACE_MAP =
    [(''bridge-accounts'', ''BRIDGE_ACCOUNTS''),
     (''court-of-appeal'', ''KV_COURT_OF_APPEAL''),
     (''chancery'', ''KV_CHANCERY''),
     (''admin-court'', ''KV_ADMIN_COURT''),
     (''kings-bench'', ''KV_KINGS_BENCH''),
     (''supreme'', ''KV_SUPREME''),
     (''clerkenwell'', ''KV_CLERKENWELL''),
     (''central-london'', ''KV_CENTRAL_LONDON''),
     (''liu'', ''KV_LIU''),
     (''hk-law'', ''KV_HK_LAW''),
     (''lessel'', ''KV_LESSEL''),
     (''letting-agents'', ''KV_LETTING_AGENTS''),
     (''barristers'', ''KV_BARRISTERS''),
     (''gld'', ''KV_GLD''),
     (''us-state-dept'', ''KV_US_STATE_DEPT''),
     (''estonia'', ''KV_ESTONIA''),
     (''hmcts'', ''KV_HMCTS''),
     (''ico'', ''KV_ICO''),
     (''phso'', ''KV_PHSO''),
     (''bar-standards'', ''KV_BAR_STANDARDS''),
     (''parliament'', ''KV_PARLIAMENT'')]"

record folder_mapping =
  binding :: string
  humanName :: string

text \<open>IMAP folder to the binding that owns it.\<close>

definition FOLDER_BINDING_MAP :: "(string \<times> folder_mapping) list" where
  "FOLDER_BINDING_MAP =
    [(''INBOX/MobiCycle Estonia/Liu'', \<lparr>binding = ''KV_LIU'', humanName = ''Liu Litigation''\<rparr>),
     (''INBOX/MobiCycle Estonia/HK Law'', \<lparr>binding = ''KV_HK_LAW'', humanName = ''HK Law Defendants''\<rparr>),
     (''INBOX/MobiCycle Estonia/Lessel'', \<lparr>binding = ''KV_LESSEL'', humanName = ''Lessel Property''\<rparr>),
     (''INBOX/MobiCycle Estonia/Letting Agents'',
        \<lparr>binding = ''KV_LETTING_AGENTS'', humanName = ''Rentify Letting Agents''\<rparr>),
     (''Labels/HK Law'', \<lparr>binding = ''KV_HK_LAW'', humanName = ''HK Law Defendants''\<rparr>),
     (''Labels/Liu'', \<lparr>binding = ''KV_LIU'', humanName = ''Liu Litigation''\<rparr>),
     (''Labels/Veena'', \<lparr>binding = ''KV_BARRISTERS'', humanName = ''Pro Bono Barristers''\<rparr>),
     (''INBOX/Government/GLD'', \<lparr>binding = ''KV_GLD'', humanName = ''Government Legal Department''\<rparr>),
     (''INBOX/Government/US State Dept'',
        \<lparr>binding = ''KV_US_STATE_DEPT'', humanName = ''US State Department''\<rparr>),
     (''INBOX/Government/Estonia'', \<lparr>binding = ''KV_ESTONIA'', humanName = ''Estonian Government''\<rparr>),
     (''INBOX/Courts/Court of Appeal'', \<lparr>binding = ''KV_COURT_OF_APPEAL'', humanName = ''Court of Appeal''\<rparr>),
     (''INBOX/Courts/Chancery'', \<lparr>binding = ''KV_CHANCERY'', humanName = ''Chancery Division''\<rparr>),
     (''INBOX/Courts/Admin Court'', \<lparr>binding = ''KV_ADMIN_COURT'', humanName = ''Administrative Court''\<rparr>),
     (''INBOX/Courts/Kings Bench'',
        \<lparr>binding = ''KV_KINGS_BENCH'', humanName = ''King'' @ [CHR 0x27] @ ''s Bench Division''\<rparr>),
     (''INBOX/Courts/Supreme'', \<lparr>binding = ''KV_SUPREME'', humanName = ''Supreme Court''\<rparr>),
     (''INBOX/Courts/Clerkenwell'',
        \<lparr>binding = ''KV_CLERKENWELL'', humanName = ''Clerkenwell County Court''\<rparr>),
     (''INBOX/Courts/Central London'',
        \<lparr>binding = ''KV_CENTRAL_LONDON'', humanName = ''Central London County Court''\<rparr>),
     (''INBOX/Complaints/HMCTS'', \<lparr>binding = ''KV_HMCTS'', humanName = ''HMCTS Complaints''\<rparr>),
     (''INBOX/Complaints/ICO'', \<lparr>binding = ''KV_ICO'', humanName = ''ICO Complaints''\<rparr>),
     (''INBOX/Complaints/PHSO'', \<lparr>binding = ''KV_PHSO'', humanName = ''PHSO Complaints''\<rparr>),
     (''INBOX/Complaints/Bar Standards'',
        \<lparr>binding = ''KV_BAR_STANDARDS'', humanName = ''Bar Standards Board''\<rparr>),
     (''INBOX/Complaints/Parliament'',
        \<lparr>binding = ''KV_PARLIAMENT'', humanName = ''Parliamentary Complaints''\<rparr>)]"

section \<open>Indexing an object literal\<close>

text \<open>
  Both tables are object literals, so \<open>TABLE[key]\<close> finds the table's own property or,
  failing that, a member inherited from \<open>Object.prototype\<close>; only a key that is
  neither yields \<open>undefined\<close>. Every inherited member is a function, except
  \<open>__proto__\<close>, which reads as the prototype object; all of them are truthy and none
  has a \<open>binding\<close> or \<open>humanName\<close> property.
\<close>

definition Object_prototype_keys :: "string list" where
  "Object_prototype_keys =
    [''constructor'', ''__defineGetter__'', ''__defineSetter__'', ''hasOwnProperty'',
     ''__lookupGetter__'', ''__lookupSetter__'', ''isPrototypeOf'', ''propertyIsEnumerable'',
     ''toString'', ''valueOf'', ''__proto__'', ''toLocaleString'']"

datatype 'a js_prop = Own 'a | Inherited | Undefined

definition js_index :: "(string \<times> 'a) list \<Rightarrow> string \<Rightarrow> 'a js_prop" where
  "js_index obj k =
     (case map_of obj k of
        Some v \<Rightarrow> Own v
      | None \<Rightarrow> if k \<in> set Object_prototype_keys then Inherited else Undefined)"

text \<open>
  The environment object is indexed in the same way: \<open>env[key]\<close> is the namespace of
  an own binding, or an inherited member, or \<open>undefined\<close>; and \<open>key in env\<close> holds
  for the own bindings and for the inherited members alike.
\<close>

definition env_index :: "'w Env \<Rightarrow> string \<Rightarrow> 'w KVNamespace js_prop" where
  "env_index env k =
     (case env k of
        Some kv \<Rightarrow> Own kv
      | None \<Rightarrow> if k \<in> set Object_prototype_keys then Inherited else Undefined)"

definition env_has :: "'w Env \<Rightarrow> string \<Rightarrow> bool" where
  "env_has env k = (env_index env k \<noteq> Undefined)"

text \<open>The value cast to \<open>KVNamespace\<close>, as far as its methods go.\<close>

definition as_namespace :: "'w KVNamespace js_prop \<Rightarrow> 'w KVNamespace option" where
  "as_namespace v = (case v of Own kv \<Rightarrow> Some kv | _ \<Rightarrow> None)"

text \<open>
  An inherited member used as a property key (\<open>bindingKey in env\<close>) is converted to a
  string: the prototype object gives \<open>[object Object]\<close>, a built-in function gives its
  source text as V8 prints it.
\<close>

definition inherited_key :: "string \<Rightarrow> string" where
  "inherited_key k =
     (if k = ''__proto__'' then ''[object Object]''
      else ''function '' @ (if k = ''constructor'' then ''Object'' else k) @ ''() { [native code] }'')"

text \<open>
  The property key that \<open>bindingKey && bindingKey in env\<close> tests, when \<open>bindingKey\<close>
  is truthy: a non-empty string of the table itself, or an inherited member as a key.
\<close>

definition truthy_key :: "string \<Rightarrow> string js_prop \<Rightarrow> string option" where
  "truthy_key k v =
     (case v of
        Own bindingKey \<Rightarrow> if bindingKey \<noteq> [] then Some bindingKey else None
      | Inherited \<Rightarrow> Some (inherited_key k)
      | Undefined \<Rightarrow> None)"

text \<open>A thing that is \<open>undefined\<close> used as a property key is the string \<open>undefined\<close>.\<close>

definition mapping_binding :: "folder_mapping js_prop \<Rightarrow> string" where
  "mapping_binding m = (case m of Own r \<Rightarrow> binding r | _ \<Rightarrow> ''undefined'')"

definition mapping_humanName :: "folder_mapping js_prop \<Rightarrow> string option" where
  "mapping_humanName m = (case m of Own r \<Rightarrow> Some (humanName r) | _ \<Rightarrow> None)"

text \<open>
  A plain object that the handlers fill by assignment (\<open>results[key] = v\<close>): its own
  properties in insertion order, and whether it still has \<open>Object.prototype\<close> above
  it. Assigning to \<open>__proto__\<close> while the prototype is there runs the inherited setter:
  \<open>null\<close> removes the prototype, any other primitive is ignored, and no own property
  is created either way. \<open>JSON.stringify\<close> prints the own properties.
\<close>

datatype 'a jsobj = JsObj (props: "(string \<times> 'a) list") (proto: bool)

fun obj_set :: "bool \<Rightarrow> string \<Rightarrow> 'a \<Rightarrow> 'a jsobj \<Rightarrow> 'a jsobj" where
  "obj_set is_null k v (JsObj ps pr) =
     (if k = ''__proto__'' \<and> pr then JsObj ps (\<not> is_null)
      else JsObj (AList.update k v ps) pr)"

definition empty_obj :: "'a jsobj" where
  "empty_obj = JsObj [] True"

section \<open>Helpers: resolveKV and listAllKeys\<close>

text \<open>\<open>Array.prototype.join\<close>.\<close>

fun join :: "string \<Rightarrow> string list \<Rightarrow> string" where
  "join sep [] = []"
| "join sep [x] = x"
| "join sep (x # y # ys) = x @ sep @ join sep (y # ys)"

definition unknown_namespace_message :: "string \<Rightarrow> string" where
  "unknown_namespace_message nameOrBinding =
     ''Unknown namespace: '' @ [CHR 0x22] @ nameOrBinding @ [CHR 0x22] @ ''. Available: ''
       @ join '', '' (map fst NAMESPACE_MAP)"

text \<open>
  \<open>resolveKV\<close>: the direct binding name first, tested with \<open>nameOrBinding in env\<close>,
  then the human-readable name through \<open>NAMESPACE_MAP\<close>, where
  \<open>bindingKey && bindingKey in env\<close> needs a truthy table entry that names a property
  of the environment. What is returned is \<open>env[...]\<close> as it is, cast to
  \<open>KVNamespace\<close>.
\<close>

definition resolveKV :: "'w Env \<Rightarrow> string \<Rightarrow> error + 'w KVNamespace js_prop" where
  "resolveKV env nameOrBinding =
     (if env_has env nameOrBinding then Inr (env_index env nameOrBinding)
      else
        (case truthy_key nameOrBinding (js_index NAMESPACE_MAP nameOrBinding) of
           Some bindingKey \<Rightarrow>
             if env_has env bindingKey then Inr (env_index env bindingKey)
             else Inl (UnknownNamespace (unknown_namespace_message nameOrBinding))
         | None \<Rightarrow> Inl (UnknownNamespace (unknown_namespace_message nameOrBinding))))"

text \<open>The loop condition \<open>while (cursor)\<close>: \<open>undefined\<close> and the empty string are falsy.\<close>

definition truthy :: "string option \<Rightarrow> bool" where
  "truthy c = (case c of None \<Rightarrow> False | Some s \<Rightarrow> s \<noteq> [])"

text \<open>
  \<open>listAllKeys\<close> is a \<open>do ... while (cursor)\<close> loop with no bound on its iterations, so
  its model is a partial function: \<open>None\<close> means that the call does not return. The
  loop state is the accumulated array \<open>all\<close> and the cursor.
\<close>

partial_function (option) listAllKeys_loop ::
  "'w KVNamespace option \<Rightarrow> string option \<Rightarrow> string list \<Rightarrow> string option \<Rightarrow> 'w
     \<Rightarrow> ((error + string list) \<times> 'w) option"
where
  "listAllKeys_loop kv pfx all cur w =
     (case call_list kv pfx cur (Some 1000) w of
        (Inl e, w') \<Rightarrow> Some (Inl e, w')
      | (Inr result, w') \<Rightarrow>
          (let all' = all @ keys result;
               cur' = (if list_complete result then None else cursor result)
           in if truthy cur' then listAllKeys_loop kv pfx all' cur' w'
              else Some (Inr all', w')))"

definition listAllKeys ::
  "'w KVNamespace option \<Rightarrow> string option \<Rightarrow> 'w \<Rightarrow> ((error + string list) \<times> 'w) option" where
  "listAllKeys kv pfx w = listAllKeys_loop kv pfx [] None w"

section \<open>Tool handlers\<close>

text \<open>
  A tool result is one payload and the \<open>isError\<close> flag; a result without the flag is
  \<open>isError = False\<close>. The payload is the value handed to \<open>JSON.stringify\<close> (or the
  text itself), before it is printed.
\<close>

datatype payload =
    KeyNotFound string
      \<comment> \<open>the text \<open>Key "<key>" not found\<close>\<close>
  | ValueText string
      \<comment> \<open>the stored value as text\<close>
  | BulkResults "(string \<times> string option) list"
      \<comment> \<open>the \<open>results\<close> object, key to value or \<open>null\<close>\<close>
  | NamespacesList nat "(string \<times> string list) list"
      \<comment> \<open>\<open>{ total, categories }\<close>\<close>
  | FolderNotMappedHint string
      \<comment> \<open>the text \<open>Folder "<folder>" is not mapped. Use email_list_folders ...\<close>\<close>
  | FolderStats string "string option" "string option" nat
      \<comment> \<open>\<open>{ folder, humanName, binding, emailCount }\<close>\<close>
  | FolderNotMapped string
      \<comment> \<open>the text \<open>Folder "<folder>" is not mapped\<close>\<close>
  | StoreSuccess string string
      \<comment> \<open>\<open>{ success: true, metadata_key, body_key }\<close>\<close>
  | PipelineStatus "(string \<times> int) list"
      \<comment> \<open>\<open>{ status: "ok", namespace_counts, note }\<close>\<close>

record tool_result =
  content :: payload
  isError :: bool

subsection \<open>kv_key_get\<close>

definition kv_key_get :: "'w Env \<Rightarrow> string \<Rightarrow> string \<Rightarrow> 'w \<Rightarrow> (error + tool_result) \<times> 'w" where
  "kv_key_get env namespace key w =
     (case resolveKV env namespace of
        Inl e \<Rightarrow> (Inl e, w)
      | Inr kv \<Rightarrow>
          (case call_get (as_namespace kv) key w of
             (Inl e, w') \<Rightarrow> (Inl e, w')
           | (Inr None, w') \<Rightarrow> (Inr \<lparr>content = KeyNotFound key, isError = True\<rparr>, w')
           | (Inr (Some v), w') \<Rightarrow> (Inr \<lparr>content = ValueText v, isError = False\<rparr>, w')))"

subsection \<open>kv_keys_bulk_get\<close>

text \<open>
  \<open>keys.map(async (key) => ...)\<close> starts one \<open>kv.get\<close> per key, in the order of the
  array, before anything is awaited: every read is issued, whatever the others answer.
\<close>

fun bulk_reads ::
  "'w KVNamespace option \<Rightarrow> string list \<Rightarrow> 'w \<Rightarrow> (string \<times> (error + string option)) list \<times> 'w" where
  "bulk_reads kv [] w = ([], w)"
| "bulk_reads kv (key # ks) w =
     (case call_get kv key w of
        (r, w') \<Rightarrow> (case bulk_reads kv ks w' of (rs, w'') \<Rightarrow> ((key, r) # rs, w'')))"

text \<open>
  \<open>Promise.all\<close> rejects as soon as one of the reads rejects, and the handler has no
  \<open>catch\<close>: the rejection leaves the handler. Which rejection arrives first is a matter
  of timing; the model takes the first in the order of the array.
\<close>

fun first_rejection :: "(string \<times> (error + string option)) list \<Rightarrow> error option" where
  "first_rejection [] = None"
| "first_rejection ((k, Inl e) # rs) = Some e"
| "first_rejection ((k, Inr v) # rs) = first_rejection rs"

text \<open>The assignments \<open>results[key] = value\<close> of the reads that were fulfilled.\<close>

fun assign_results ::
  "(string \<times> (error + string option)) list \<Rightarrow> string option jsobj \<Rightarrow> string option jsobj" where
  "assign_results [] results = results"
| "assign_results ((k, Inl e) # rs) results = assign_results rs results"
| "assign_results ((k, Inr v) # rs) results = assign_results rs (obj_set (v = None) k v results)"

definition kv_keys_bulk_get ::
  "'w Env \<Rightarrow> string \<Rightarrow> string list \<Rightarrow> 'w \<Rightarrow> (error + tool_result) \<times> 'w" where
  "kv_keys_bulk_get env namespace ks w =
     (case resolveKV env namespace of
        Inl e \<Rightarrow> (Inl e, w)
      | Inr kv \<Rightarrow>
          (case bulk_reads (as_namespace kv) ks w of
             (rs, w') \<Rightarrow>
               (case first_rejection rs of
                  Some e \<Rightarrow> (Inl e, w')
                | None \<Rightarrow>
                    (Inr \<lparr>content = BulkResults (props (assign_results rs empty_obj)),
                          isError = False\<rparr>, w'))))"

text \<open>
  The tool as registered: the input schema \<open>z.array(z.string()).max(100)\<close> is checked
  before the handler runs.
\<close>

definition kv_keys_bulk_get_tool ::
  "'w Env \<Rightarrow> string \<Rightarrow> string list \<Rightarrow> 'w \<Rightarrow> (error + tool_result) \<times> 'w" where
  "kv_keys_bulk_get_tool env namespace ks w =
     (if length ks > 100 then (Inl (InvalidArguments ''keys''), w)
      else kv_keys_bulk_get env namespace ks w)"

subsection \<open>namespaces_list\<close>



subsection \<open>email_folder_stats\<close>

definition email_folder_stats ::
  "'w Env \<Rightarrow> string \<Rightarrow> 'w \<Rightarrow> ((error + tool_result) \<times> 'w) option" where
  "email_folder_stats env folder w =
     (case js_index FOLDER_BINDING_MAP folder of
        Undefined \<Rightarrow> Some (Inr \<lparr>content = FolderNotMappedHint folder, isError = True\<rparr>, w)
      | mapping \<Rightarrow>
          (case listAllKeys (env (mapping_binding mapping)) (Some ''email:'') w of
             None \<Rightarrow> None
           | Some (Inl e, w') \<Rightarrow> Some (Inl e, w')
           | Some (Inr ks, w') \<Rightarrow>
               Some (Inr \<lparr>content = FolderStats folder (mapping_humanName mapping)
                                      (case mapping of Own r \<Rightarrow> Some (binding r) | _ \<Rightarrow> None)
                                      (length ks),
                          isError = False\<rparr>, w')))"

subsection \<open>email_store\<close>

text \<open>
  \<open>stored_at1\<close> and \<open>stored_at2\<close> are the two readings of the clock,
  \<open>new Date().toISOString()\<close>, one for each put.
\<close>

definition folder_side_metadata :: "string \<Rightarrow> string \<Rightarrow> string \<Rightarrow> metadata" where
  "folder_side_metadata folder body_key stored_at =
     [(''folder'', Some folder), (''body_uuid'', Some body_key), (''stored_at'', Some stored_at)]"

definition body_side_metadata :: "string \<Rightarrow> string option \<Rightarrow> string \<Rightarrow> metadata" where
  "body_side_metadata folder human stored_at =
     [(''folder'', Some folder), (''humanName'', human), (''stored_at'', Some stored_at)]"

definition email_store ::
  "'w Env \<Rightarrow> string \<Rightarrow> string \<Rightarrow> string \<Rightarrow> string \<Rightarrow> string \<Rightarrow> string \<Rightarrow> string \<Rightarrow> 'w
     \<Rightarrow> (error + tool_result) \<times> 'w" where
  "email_store env stored_at1 stored_at2 folder key metadata body_key body w =
     (case js_index FOLDER_BINDING_MAP folder of
        Undefined \<Rightarrow> (Inr \<lparr>content = FolderNotMapped folder, isError = True\<rparr>, w)
      | mapping \<Rightarrow>
          (let folderKV = env (mapping_binding mapping) in
           case call_put folderKV key metadata
                  (Some (folder_side_metadata folder body_key stored_at1)) w of
             (Inl e, w1) \<Rightarrow> (Inl e, w1)
           | (Inr u, w1) \<Rightarrow>
               (case call_put (env ''EMAIL_BODIES'') body_key body
                       (Some (body_side_metadata folder (mapping_humanName mapping) stored_at2)) w1 of
                  (Inl e, w2) \<Rightarrow> (Inl e, w2)
                | (Inr u', w2) \<Rightarrow>
                    (Inr \<lparr>content = StoreSuccess key body_key, isError = False\<rparr>, w2))))"

subsection \<open>pipeline_status\<close>

text \<open>
  The loop over \<open>Object.entries(NAMESPACE_MAP)\<close>; \<open>stats\<close> is the object being
  filled. A failure inside the \<open>try\<close>, including a binding that is \<open>undefined\<close>, is
  caught and recorded as \<open>-1\<close>.
\<close>

fun scan ::
  "'w Env \<Rightarrow> (string \<times> string) list \<Rightarrow> int jsobj \<Rightarrow> 'w \<Rightarrow> int jsobj \<times> 'w" where
  "scan env [] stats w = (stats, w)"
| "scan env ((name, bindingKey) # rest) stats w =
     (if name = ''email-bodies'' \<or> name = ''bridge-accounts'' then scan env rest stats w
      else
        (case call_list (env bindingKey) None None (Some 1) w of
           (Inr result, w') \<Rightarrow>
             (let stats1 = obj_set False name (int (length (keys result))) stats;
                  stats2 = (if \<not> list_complete result then obj_set False name (- 1) stats1
                            else stats1)
              in scan env rest stats2 w')
         | (Inl e, w') \<Rightarrow> scan env rest (obj_set False name (- 1) stats) w'))"

definition pipeline_status :: "'w Env \<Rightarrow> 'w \<Rightarrow> (error + tool_result) \<times> 'w" where
  "pipeline_status env w =
     (case scan env NAMESPACE_MAP empty_obj w of
        (stats, w') \<Rightarrow> (Inr \<lparr>content = PipelineStatus (props stats), isError = False\<rparr>, w'))"

section \<open>A reference store\<close>

text \<open>
  Modelled from the spec: the key-value store behind a binding is not part of the
  repository; the spec (sections 1 and 4.2) gives its interface. The reference store
  follows it: every namespace holds entries under unique keys, \<open>list\<close> answers one
  page of at most \<open>limit\<close> keys that start with the prefix, together with a cursor
  when more remain, and reports completion when none remain; \<open>get\<close> answers the value
  or \<open>null\<close>; \<open>put\<close> writes the entry. The world also says which operations the
  platform rejects (a rejected operation changes no entry) and keeps a log of the
  operations attempted, in order.
\<close>

record kv_entry =
  entry_value :: string
  entry_metadata :: "metadata option"

datatype op = OpList string | OpGet string string | OpPut string string

record world =
  stores :: "string \<Rightarrow> (string \<times> kv_entry) list"
  faults :: "op \<Rightarrow> bool"
  oplog :: "op list"
  page_cap :: nat

definition store_keys :: "world \<Rightarrow> string \<Rightarrow> string list" where
  "store_keys w sid = map fst (stores w sid)"

definition logged :: "op \<Rightarrow> world \<Rightarrow> world" where
  "logged x w = w\<lparr>oplog := oplog w @ [x]\<rparr>"

definition matches :: "string option \<Rightarrow> string \<Rightarrow> bool" where
  "matches pfx k = (case pfx of None \<Rightarrow> True | Some p \<Rightarrow> prefix p k)"

text \<open>A cursor is the offset of the next page, written as that many characters.\<close>

definition mem_list ::
  "string \<Rightarrow> string option \<Rightarrow> string option \<Rightarrow> nat option \<Rightarrow> world \<Rightarrow> (error + list_result) \<times> world" where
  "mem_list sid pfx cur lim w =
     (if faults w (OpList sid) then (Inl (StoreFault sid), logged (OpList sid) w)
      else
        (let ks = filter (matches pfx) (store_keys w sid);
             off = (case cur of None \<Rightarrow> 0 | Some c \<Rightarrow> length c);
             n = (case lim of None \<Rightarrow> page_cap w | Some l \<Rightarrow> min l (page_cap w));
             complete = (length ks \<le> off + n)
         in (Inr \<lparr>keys = take n (drop off ks), list_complete = complete,
                  cursor = (if complete then None else Some (replicate (off + n) (CHR ''c'')))\<rparr>,
             logged (OpList sid) w)))"

text \<open>What the store answers to a read of the key \<open>k\<close>.\<close>

definition mem_read :: "world \<Rightarrow> string \<Rightarrow> string \<Rightarrow> error + string option" where
  "mem_read w sid k =
     (if faults w (OpGet sid k) then Inl (StoreFault sid)
      else Inr (map_option entry_value (map_of (stores w sid) k)))"

definition mem_get :: "string \<Rightarrow> string \<Rightarrow> world \<Rightarrow> (error + string option) \<times> world" where
  "mem_get sid k w = (mem_read w sid k, logged (OpGet sid k) w)"

definition mem_put ::
  "string \<Rightarrow> string \<Rightarrow> string \<Rightarrow> metadata option \<Rightarrow> world \<Rightarrow> (error + unit) \<times> world" where
  "mem_put sid k v m w =
     (if faults w (OpPut sid k) then (Inl (StoreFault sid), logged (OpPut sid k) w)
      else (Inr (),
            logged (OpPut sid k)
              (w\<lparr>stores := (stores w)
                    (sid := AList.update k \<lparr>entry_value = v, entry_metadata = m\<rparr> (stores w sid))\<rparr>)))"

definition mem_kv :: "string \<Rightarrow> world KVNamespace" where
  "mem_kv sid = \<lparr>kv_list = mem_list sid, kv_get = mem_get sid, kv_put = mem_put sid\<rparr>"

text \<open>An environment whose bindings are reference stores: binding name to store.\<close>

definition mem_env :: "(string \<Rightarrow> string option) \<Rightarrow> world Env" where
  "mem_env tbl = (\<lambda>b. map_option mem_kv (tbl b))"

section \<open>Notions used by the properties\<close>

text \<open>
  A store that never reports completion: whatever it is asked, \<open>list\<close> answers a page
  that is not complete and carries a non-empty cursor.
\<close>

definition never_completes :: "'w KVNamespace \<Rightarrow> bool" where
  "never_completes kv =
     (\<forall>pfx cur lim w.
        case fst (kv_list kv pfx cur lim w) of
          Inl e \<Rightarrow> False
        | Inr r \<Rightarrow> \<not> list_complete r \<and> truthy (cursor r))"

text \<open>The smallest number of pages of size \<open>p\<close> that hold \<open>n\<close> keys.\<close>

definition ceil_div :: "nat \<Rightarrow> nat \<Rightarrow> nat" where
  "ceil_div n p = (n + p - 1) div p"

text \<open>
  The number of page calls that a listing of \<open>n\<close> keys in pages of \<open>p\<close> takes when the
  first call is made unconditionally: at least one.
\<close>

definition page_calls :: "nat \<Rightarrow> nat \<Rightarrow> nat" where
  "page_calls n p = max 1 (ceil_div n p)"

text \<open>
  The count that the spec (section 4.5) asks of the fleet scan for the namespace bound
  under \<open>b\<close>: the literal count for a store with no key or one key, and \<open>-1\<close> for a
  store with more keys, for a probe that fails, and for a binding that is missing.
\<close>

definition spec_health_count :: "(string \<Rightarrow> string option) \<Rightarrow> world \<Rightarrow> string \<Rightarrow> int" where
  "spec_health_count tbl w b =
     (case tbl b of
        None \<Rightarrow> - 1
      | Some sid \<Rightarrow>
          if faults w (OpList sid) then - 1
          else if length (store_keys w sid) = 0 then 0
          else if length (store_keys w sid) = 1 then 1
          else - 1)"

section \<open>Example stores\<close>

text \<open>A store whose listing never completes.\<close>

definition endless_kv :: "unit KVNamespace" where
  "endless_kv =
     \<lparr>kv_list = (\<lambda>pfx cur lim w. (Inr \<lparr>keys = [], list_complete = False, cursor = Some ''next''\<rparr>, w)),
      kv_get = (\<lambda>k w. (Inr None, w)),
      kv_put = (\<lambda>k v m w. (Inr (), w))\<rparr>"

text \<open>A store that answers everything in one page.\<close>

definition single_page_kv :: "unit KVNamespace" where
  "single_page_kv =
     \<lparr>kv_list = (\<lambda>pfx cur lim w. (Inr \<lparr>keys = [''a'', ''b''], list_complete = True, cursor = None\<rparr>, w)),
      kv_get = (\<lambda>k w. (Inr None, w)),
      kv_put = (\<lambda>k v m w. (Inr (), w))\<rparr>"

text \<open>
  A world of reference stores: the store of the Liu namespace holds three entries, the
  store of the HMCTS namespace one, the others none; reading the key \<open>note\<close> of the
  Liu store, writing the key \<open>b1\<close> of the bodies store and listing the PHSO store are
  rejected; a page holds at most two keys.
\<close>

definition example_world :: world where
  "example_world =
     \<lparr>stores = (\<lambda>sid. if sid = ''liu-store''
                        then [(''email:1'', \<lparr>entry_value = ''m1'', entry_metadata = None\<rparr>),
                              (''note'', \<lparr>entry_value = ''n'', entry_metadata = None\<rparr>),
                              (''email:2'', \<lparr>entry_value = ''m2'', entry_metadata = None\<rparr>)]
                        else if sid = ''hmcts-store''
                        then [(''only'', \<lparr>entry_value = ''v'', entry_metadata = None\<rparr>)]
                        else []),
      faults = (\<lambda>x. x = OpGet ''liu-store'' ''note'' \<or> x = OpPut ''bodies-store'' ''b1''
                     \<or> x = OpList ''phso-store''),
      oplog = [],
      page_cap = 2\<rparr>"

definition example_table :: "string \<Rightarrow> string option" where
  "example_table =
     map_of [(''KV_LIU'', ''liu-store''), (''KV_ICO'', ''ico-store''),
             (''KV_HMCTS'', ''hmcts-store''), (''KV_PHSO'', ''phso-store''),
             (''EMAIL_BODIES'', ''bodies-store'')]"

definition example_env :: "world Env" where
  "example_env = mem_env example_table"

text \<open>An environment with exactly the bindings that \<open>Env\<close> declares.\<close>

definition declared_env :: "world Env" where
  "declared_env = (\<lambda>k. if k \<in> set Env_bindings then Some (mem_kv k) else None)"

section \<open>Name resolution\<close>

lemma sublist_under_prefix: "sublist n t \<Longrightarrow> sublist n (p @ t)"
proof -
  assume "sublist n t"
  then obtain ps ss where "t = ps @ n @ ss" by (auto simp: sublist_def)
  then have "p @ t = (p @ ps) @ n @ ss" by simp
  then show ?thesis unfolding sublist_def by blast
qed

lemma sublist_join: "n \<in> set xs \<Longrightarrow> sublist n (join sep xs)"
proof (induction sep xs rule: join.induct)
  case (1 sep)
  then show ?case by simp
next
  case (2 sep x)
  then show ?case by simp
next
  case (3 sep x y ys)
  show ?case
  proof (cases "n = x")
    case True
    then show ?thesis by simp
  next
    case False
    with 3 have "sublist n (join sep (y # ys))" by simp
    then have "sublist n ((x @ sep) @ join sep (y # ys))" by (rule sublist_under_prefix)
    then show ?thesis by simp
  qed
qed

lemma message_lists_names:
  assumes "n \<in> set (map fst NAMESPACE_MAP)"
  shows "sublist n (unknown_namespace_message s)"
proof -
  have "sublist n (join '', '' (map fst NAMESPACE_MAP))"
    using assms by (rule sublist_join)
  then have "sublist n ((''Unknown namespace: '' @ [CHR 0x22] @ s @ [CHR 0x22] @ ''. Available: '')
       @ join '', '' (map fst NAMESPACE_MAP))"
    by (rule sublist_under_prefix)
  then show ?thesis by (simp add: unknown_namespace_message_def)
qed

text \<open>A registered human-readable name reads its own binding key from the table.\<close>

lemma registered_name_key:
  assumes "map_of NAMESPACE_MAP s = Some b"
  shows "truthy_key s (js_index NAMESPACE_MAP s) = Some b"
proof -
  from assms have "(s, b) \<in> set NAMESPACE_MAP" by (rule map_of_SomeD)
  then have "b \<noteq> []" by (auto simp: NAMESPACE_MAP_def)
  with assms show ?thesis by (simp add: truthy_key_def js_index_def)
qed

lemma registered_name_not_inherited:
  assumes "map_of NAMESPACE_MAP s = Some b"
  shows "s \<notin> set Object_prototype_keys"
proof -
  from assms have "(s, b) \<in> set NAMESPACE_MAP" by (rule map_of_SomeD)
  then show ?thesis by (auto simp: NAMESPACE_MAP_def Object_prototype_keys_def)
qed


lemma env_has_iff: "env_has env k = (env k \<noteq> None \<or> k \<in> set Object_prototype_keys)"
  by (simp add: env_has_def env_index_def split: option.split)

lemma env_index_own: "env k = Some kv \<Longrightarrow> env_index env k = Own kv"
  by (simp add: env_index_def)

lemma example_env_simps:
  "example_env ''liu'' = None" "example_env ''KV_LIU'' = Some (mem_kv ''liu-store'')"
  "example_env ''nowhere'' = None" "example_env ''KV_GLD'' = None"
  by (simp_all add: example_env_def mem_env_def example_table_def)

lemma resolve_example_liu: "resolveKV example_env ''liu'' = Inr (Own (mem_kv ''liu-store''))"
  by (simp add: resolveKV_def env_has_iff env_index_own example_env_simps truthy_key_def
        js_index_def NAMESPACE_MAP_def Object_prototype_keys_def)

lemma resolve_example_nowhere:
  "resolveKV example_env ''nowhere''
     = Inl (UnknownNamespace (unknown_namespace_message ''nowhere''))"
  by (simp add: resolveKV_def env_has_iff example_env_simps truthy_key_def
        js_index_def NAMESPACE_MAP_def Object_prototype_keys_def)

text \<open>
  On every input that is not the name of a member of \<open>Object.prototype\<close> the order of
  resolution is the one the spec describes: an own binding under the input first, then
  the binding that \<open>NAMESPACE_MAP\<close> gives for the input, else \<open>UnknownNamespace\<close>,
  whose message contains every registered human-readable name.
\<close>

lemma resolveKV_order_outside_prototype:
  "(env s = Some kv \<longrightarrow> resolveKV env s = Inr (Own kv))
   \<and> (env s = None \<longrightarrow> map_of NAMESPACE_MAP s = Some b \<longrightarrow> env b = Some kv
        \<longrightarrow> resolveKV env s = Inr (Own kv))
   \<and> (env s = None \<longrightarrow> s \<notin> set Object_prototype_keys
        \<longrightarrow> (\<forall>b. truthy_key s (js_index NAMESPACE_MAP s) = Some b \<longrightarrow> \<not> env_has env b)
        \<longrightarrow> resolveKV env s = Inl (UnknownNamespace (unknown_namespace_message s)))
   \<and> (\<forall>n \<in> set (map fst NAMESPACE_MAP). sublist n (unknown_namespace_message s))"
proof (intro conjI impI)
  assume "env s = Some kv"
  then show "resolveKV env s = Inr (Own kv)"
    by (simp add: resolveKV_def env_has_iff env_index_own)
next
  assume "env s = None" "map_of NAMESPACE_MAP s = Some b" "env b = Some kv"
  then show "resolveKV env s = Inr (Own kv)"
    by (simp add: resolveKV_def env_has_iff env_index_own registered_name_key
          registered_name_not_inherited)
next
  assume "env s = None" "s \<notin> set Object_prototype_keys"
    "\<forall>b. truthy_key s (js_index NAMESPACE_MAP s) = Some b \<longrightarrow> \<not> env_has env b"
  then show "resolveKV env s = Inl (UnknownNamespace (unknown_namespace_message s))"
    by (cases "truthy_key s (js_index NAMESPACE_MAP s)") (simp_all add: resolveKV_def env_has_iff)
next
  show "\<forall>n \<in> set (map fst NAMESPACE_MAP). sublist n (unknown_namespace_message s)"
    using message_lists_names by blast
qed

text \<open>
  Claim C4. \<open>resolveKV\<close> should take the input first as the name of a binding, then as
  a registered human-readable name, and fail with \<open>UnknownNamespace\<close> when it is
  neither. The input \<open>toString\<close> is neither a binding nor a registered name, but
  \<open>"toString" in env\<close> holds, because the environment object inherits that member:
  \<open>resolveKV\<close> returns the inherited function as if it were a namespace, without
  looking at \<open>NAMESPACE_MAP\<close> and without the error, and \<open>kv_key_get\<close> on it ends in
  a \<open>TypeError\<close> at \<open>kv.get\<close>.
\<close>

theorem resolveKV_inherited_name:
  "resolveKV (env(''toString'' := None)) ''toString'' = Inr Inherited
   \<and> kv_key_get (env(''toString'' := None)) ''toString'' key w = (Inl (TypeError ''get''), w)"
proof -
  have r: "resolveKV (env(''toString'' := None)) ''toString'' = Inr Inherited"
    by (simp add: resolveKV_def env_has_def env_index_def Object_prototype_keys_def)
  then show ?thesis
    by (simp add: kv_key_get_def as_namespace_def call_get_def)
qed



section \<open>Point reads\<close>

text \<open>
  In the example world the key \<open>missing\<close> is absent from the Liu store, and
  \<open>kv_key_get\<close> answers with the error flag set.
\<close>

theorem kv_key_get_absent_flagged_example:
  "fst (kv_key_get example_env ''liu'' ''missing'' example_world)
     = Inr \<lparr>content = KeyNotFound ''missing'', isError = True\<rparr>"
  by (simp add: kv_key_get_def resolve_example_liu as_namespace_def call_get_def mem_kv_def
        mem_get_def mem_read_def example_world_def)

text \<open>
  Claim C7, amended. A point read of a key that the store does not hold is not a thrown
  fault: the store answers \<open>null\<close> and \<open>kv_key_get\<close> returns a result of its own,
  the text \<open>Key "<key>" not found\<close>, with the error flag set. An unknown namespace
  and a failing store are thrown errors instead: the error of \<open>resolveKV\<close> and the
  fault of the store leave the handler as they are.
\<close>

theorem kv_key_get_absent:
  "(resolveKV env namespace = Inr (Own (mem_kv sid)) \<longrightarrow> \<not> faults w (OpGet sid key)
      \<longrightarrow> key \<notin> set (store_keys w sid)
      \<longrightarrow> fst (kv_key_get env namespace key w)
            = Inr \<lparr>content = KeyNotFound key, isError = True\<rparr>)
   \<and> (resolveKV env namespace = Inl e \<longrightarrow> kv_key_get env namespace key w = (Inl e, w))
   \<and> (resolveKV env namespace = Inr (Own (mem_kv sid)) \<longrightarrow> faults w (OpGet sid key)
      \<longrightarrow> fst (kv_key_get env namespace key w) = Inl (StoreFault sid))"
proof (intro conjI impI)
  assume r: "resolveKV env namespace = Inr (Own (mem_kv sid))"
    and ok: "\<not> faults w (OpGet sid key)" and absent: "key \<notin> set (store_keys w sid)"
  from absent have "map_of (stores w sid) key = None"
    by (simp add: store_keys_def map_of_eq_None_iff)
  with r ok show "fst (kv_key_get env namespace key w)
            = Inr \<lparr>content = KeyNotFound key, isError = True\<rparr>"
    by (simp add: kv_key_get_def as_namespace_def call_get_def mem_kv_def mem_get_def mem_read_def)
next
  assume "resolveKV env namespace = Inl e"
  then show "kv_key_get env namespace key w = (Inl e, w)"
    by (simp add: kv_key_get_def)
next
  assume "resolveKV env namespace = Inr (Own (mem_kv sid))" "faults w (OpGet sid key)"
  then show "fst (kv_key_get env namespace key w) = Inl (StoreFault sid)"
    by (simp add: kv_key_get_def as_namespace_def call_get_def mem_kv_def mem_get_def mem_read_def)
qed

theorem kv_key_get_absent_witness:
  "fst (kv_key_get example_env ''liu'' ''absent'' example_world)
     = Inr \<lparr>content = KeyNotFound ''absent'', isError = True\<rparr>
   \<and> kv_key_get example_env ''nowhere'' ''absent'' example_world
       = (Inl (UnknownNamespace (unknown_namespace_message ''nowhere'')), example_world)
   \<and> fst (kv_key_get example_env ''liu'' ''note'' example_world) = Inl (StoreFault ''liu-store'')"
proof -
  have f: "\<not> faults example_world (OpGet ''liu-store'' ''absent'')"
    "''absent'' \<notin> set (store_keys example_world ''liu-store'')"
    "faults example_world (OpGet ''liu-store'' ''note'')"
    by (simp_all add: example_world_def store_keys_def)
  from kv_key_get_absent[of example_env "''liu''" "''liu-store''" example_world "''absent''"]
    resolve_example_liu f(1,2)
  have 1: "fst (kv_key_get example_env ''liu'' ''absent'' example_world)
     = Inr \<lparr>content = KeyNotFound ''absent'', isError = True\<rparr>" by blast
  from kv_key_get_absent[of example_env "''nowhere''" _ example_world "''absent''"
      "UnknownNamespace (unknown_namespace_message ''nowhere'')"]
    resolve_example_nowhere
  have 2: "kv_key_get example_env ''nowhere'' ''absent'' example_world
       = (Inl (UnknownNamespace (unknown_namespace_message ''nowhere'')), example_world)" by blast
  from kv_key_get_absent[of example_env "''liu''" "''liu-store''" example_world "''note''"]
    resolve_example_liu f(3)
  have 3: "fst (kv_key_get example_env ''liu'' ''note'' example_world) = Inl (StoreFault ''liu-store'')"
    by blast
  from 1 2 3 show ?thesis by blast
qed

section \<open>Split write: folders without an owner\<close>

text \<open>
  A folder that is neither a key of \<open>FOLDER_BINDING_MAP\<close> nor a member of
  \<open>Object.prototype\<close> gets the not-mapped result, and the world is untouched.
\<close>

lemma email_store_unmapped:
  assumes "js_index FOLDER_BINDING_MAP folder = Undefined"
  shows "email_store env t1 t2 folder key md body_key body w
           = (Inr \<lparr>content = FolderNotMapped folder, isError = True\<rparr>, w)"
  using assms by (simp add: email_store_def)

lemma toString_inherited: "js_index FOLDER_BINDING_MAP ''toString'' = Inherited"
  by (simp add: js_index_def FOLDER_BINDING_MAP_def Object_prototype_keys_def)

text \<open>
  Claim C6. A split write for a folder that no namespace owns should fail with the
  not-mapped error and write nothing. The folder \<open>toString\<close> has no owner, but
  \<open>FOLDER_BINDING_MAP["toString"]\<close> is the inherited function, which passes the
  \<open>!mapping\<close> test: its \<open>binding\<close> is \<open>undefined\<close>, and in an environment without a
  property of that name the call ends in a \<open>TypeError\<close> at \<open>folderKV.put\<close>, not in
  the not-mapped result. Nothing is written.
\<close>

theorem email_store_inherited_folder:
  "email_store (env(''undefined'' := None)) t1 t2 ''toString'' key md body_key body w
     = (Inl (TypeError ''put''), w)"
  by (simp add: email_store_def toString_inherited mapping_binding_def call_put_def)

section \<open>Key enumeration against an arbitrary store\<close>

lemma never_completes_page:
  assumes "never_completes kv"
  obtains res w' where "kv_list kv pfx cur lim w = (Inr res, w')"
    "\<not> list_complete res" "truthy (cursor res)"
proof -
  obtain r w' where kl: "kv_list kv pfx cur lim w = (r, w')"
    by (cases "kv_list kv pfx cur lim w")
  from assms have "case fst (kv_list kv pfx cur lim w) of Inl e \<Rightarrow> False
      | Inr r \<Rightarrow> \<not> list_complete r \<and> truthy (cursor r)"
    unfolding never_completes_def by blast
  with kl that show thesis by (cases r) auto
qed

lemma loop_returns_not_endless:
  assumes "listAllKeys_loop h pfx acc cur w = Some y"
  shows "\<forall>kv. h = Some kv \<longrightarrow> \<not> never_completes kv"
proof (rule listAllKeys_loop.raw_induct
    [where P = "\<lambda>h _ _ _ _ _. \<forall>kv. h = Some kv \<longrightarrow> \<not> never_completes kv", OF _ assms])
  fix loop h pfx all cur and w :: 'a and y
  assume IH: "\<And>h pfx all cur w y. loop h pfx all cur w = Some y
                \<Longrightarrow> \<forall>kv. h = Some kv \<longrightarrow> \<not> never_completes kv"
    and step: "(case call_list h pfx cur (Some 1000) w of
        (Inl e, w') \<Rightarrow> Some (Inl e, w')
      | (Inr result, w') \<Rightarrow>
          (let all' = all @ keys result;
               cur' = (if list_complete result then None else cursor result)
           in if truthy cur' then loop h pfx all' cur' w'
              else Some (Inr all', w'))) = Some y"
  show "\<forall>kv. h = Some kv \<longrightarrow> \<not> never_completes kv"
  proof (intro allI impI notI)
    fix kv
    assume h: "h = Some kv" and nc: "never_completes kv"
    from nc obtain res w' where "kv_list kv pfx cur (Some 1000) w = (Inr res, w')"
       "\<not> list_complete res" "truthy (cursor res)"
      by (rule never_completes_page)
    with step h have "loop h pfx (all @ keys res) (cursor res) w' = Some y"
      by (simp add: Let_def call_list_def)
    from IH[OF this] h nc show False by simp
  qed
qed

lemma loop_stops_on_completion:
  assumes "kv_list kv pfx cur (Some 1000) w = (Inr r, w')"
    and "list_complete r \<or> \<not> truthy (cursor r)"
  shows "listAllKeys_loop (Some kv) pfx acc cur w = Some (Inr (acc @ keys r), w')"
  apply (subst listAllKeys_loop.simps)
  using assms apply (cases "list_complete r")
   apply (simp_all add: call_list_def Let_def truthy_def)
  done

lemma endless_kv_never_completes: "never_completes endless_kv"
  by (simp add: never_completes_def endless_kv_def truthy_def)

text \<open>
  Against the store whose listing never completes, \<open>listAllKeys\<close> does not return:
  no bound on the number of pages stops it, and it reports no error.
\<close>

theorem listAllKeys_endless_example: "listAllKeys (Some endless_kv) None () = None"
proof (cases "listAllKeys (Some endless_kv) None ()")
  case None
  then show ?thesis .
next
  case (Some y)
  then have "listAllKeys_loop (Some endless_kv) None [] None () = Some y"
    by (simp add: listAllKeys_def)
  then have "\<not> never_completes endless_kv" by (simp add: loop_returns_not_endless)
  with endless_kv_never_completes show ?thesis by simp
qed

text \<open>
  Claim C3, amended. \<open>listAllKeys\<close> stops when a page reports completion: the call
  returns the keys accumulated so far together with the keys of that page. It has no cap
  on the number of page calls and no \<open>PaginationExhausted\<close> failure: against a store
  that never reports completion and always hands back a non-empty cursor it does not
  return.
\<close>

theorem listAllKeys_unbounded:
  "(never_completes kv \<longrightarrow> listAllKeys (Some kv) pfx w = None)
   \<and> (kv_list kv pfx cur (Some 1000) w = (Inr r, w') \<longrightarrow> list_complete r
        \<longrightarrow> listAllKeys_loop (Some kv) pfx acc cur w = Some (Inr (acc @ keys r), w'))"
proof (intro conjI impI)
  assume nc: "never_completes kv"
  show "listAllKeys (Some kv) pfx w = None"
  proof (cases "listAllKeys (Some kv) pfx w")
    case None
    then show ?thesis .
  next
    case (Some y)
    then have "listAllKeys_loop (Some kv) pfx [] None w = Some y"
      by (simp add: listAllKeys_def)
    then have "\<not> never_completes kv" by (simp add: loop_returns_not_endless)
    with nc show ?thesis by simp
  qed
next
  assume "kv_list kv pfx cur (Some 1000) w = (Inr r, w')" "list_complete r"
  then show "listAllKeys_loop (Some kv) pfx acc cur w = Some (Inr (acc @ keys r), w')"
    by (simp add: loop_stops_on_completion)
qed

theorem listAllKeys_unbounded_witness:
  "listAllKeys (Some endless_kv) (Some ''email:'') () = None
   \<and> listAllKeys_loop (Some single_page_kv) None [] None () = Some (Inr [''a'', ''b''], ())"
proof -
  have 1: "listAllKeys (Some endless_kv) (Some ''email:'') () = None"
    using listAllKeys_unbounded[of endless_kv "Some ''email:''" "()"] endless_kv_never_completes
    by simp
  have 2: "listAllKeys_loop (Some single_page_kv) None [] None () = Some (Inr [''a'', ''b''], ())"
    using listAllKeys_unbounded[of single_page_kv None "()" None
        "\<lparr>keys = [''a'', ''b''], list_complete = True, cursor = None\<rparr>" "()" "[]"]
    by (simp add: single_page_kv_def)
  from 1 2 show ?thesis by simp
qed

section \<open>Key enumeration of a reference store\<close>

lemma logged_fields [simp]:
  "stores (logged x w) = stores w" "faults (logged x w) = faults w"
  "page_cap (logged x w) = page_cap w" "oplog (logged x w) = oplog w @ [x]"
  by (simp_all add: logged_def)

lemma store_keys_logged [simp]: "store_keys (logged x w) sid = store_keys w sid"
  by (simp add: store_keys_def)

lemma logged_oplog_update:
  "(logged x w)\<lparr>oplog := oplog (logged x w) @ xs\<rparr> = w\<lparr>oplog := oplog w @ x # xs\<rparr>"
  by (simp add: logged_def)

lemma ceil_div_small: "0 < p \<Longrightarrow> n \<le> p \<Longrightarrow> page_calls n p = 1"
proof -
  assume "0 < p" "n \<le> p"
  then have "n + p - 1 < 2 * p" by simp
  then have "(n + p - 1) div p < 2"
    using \<open>0 < p\<close> by (simp add: less_mult_imp_div_less mult.commute)
  then show ?thesis by (simp add: ceil_div_def page_calls_def)
qed

lemma ceil_div_step:
  assumes "0 < p" "p < n"
  shows "page_calls n p = Suc (page_calls (n - p) p)"
proof -
  from assms have "n + p - 1 = (n - p + p - 1) + p" by simp
  then have "(n + p - 1) div p = Suc ((n - p + p - 1) div p)"
    using \<open>0 < p\<close> by (simp only: div_add_self2)
  moreover have "1 \<le> (n - p + p - 1) div p"
  proof -
    from assms have "p \<le> n - p + p - 1" by simp
    then show ?thesis using \<open>0 < p\<close> by (metis div_greater_zero_iff Suc_leI One_nat_def)
  qed
  ultimately show ?thesis by (simp add: ceil_div_def page_calls_def)
qed

text \<open>
  The loop from offset \<open>off\<close>: it returns the accumulated keys followed by the rest of
  the matching keys, and logs one page call for each page of the rest.
\<close>

lemma mem_loop:
  assumes "\<not> faults w (OpList sid)" and "0 < page_cap w"
    and "ks = filter (matches pfx) (store_keys w sid)"
    and "off = (case cur of None \<Rightarrow> 0 | Some c \<Rightarrow> length c)"
    and "off = 0 \<or> off < length ks"
  shows "listAllKeys_loop (Some (mem_kv sid)) pfx acc cur w
           = Some (Inr (acc @ drop off ks),
                   w\<lparr>oplog := oplog w @
                        replicate (page_calls (length ks - off) (min 1000 (page_cap w)))
                          (OpList sid)\<rparr>)"
  using assms
proof (induction "length ks - off" arbitrary: off cur acc w rule: less_induct)
  case less
  let ?p = "min 1000 (page_cap w)"
  have p: "0 < ?p" using less.prems(2) by simp
  have ks: "filter (matches pfx) (store_keys w sid) = ks" using less.prems(3) by simp
  have off: "(case cur of None \<Rightarrow> 0 | Some c \<Rightarrow> length c) = off" using less.prems(4) by simp
  show ?case
  proof (cases "length ks \<le> off + ?p")
    case True
    then have "length (drop off ks) \<le> ?p" by (simp add: min_def split: if_splits)
    then have tk: "take ?p (drop off ks) = drop off ks" by simp
    have "length ks - off \<le> ?p" using True by arith
    with p have c: "page_calls (length ks - off) ?p = 1"
      by (rule ceil_div_small)
    have "call_list (Some (mem_kv sid)) pfx cur (Some 1000) w
            = (Inr \<lparr>keys = drop off ks, list_complete = True, cursor = None\<rparr>, logged (OpList sid) w)"
      using less.prems(1) True tk
      by (simp add: call_list_def mem_kv_def mem_list_def ks off Let_def)
    then show ?thesis
      apply (subst listAllKeys_loop.simps)
      apply (simp only: c)
      apply (simp add: truthy_def logged_def)
      done
  next
    case False
    then have lt: "off + ?p < length ks" by simp
    have tk: "take ?p (drop off ks) @ drop (off + ?p) ks = drop off ks"
      by (metis append_take_drop_id drop_drop add.commute)
    have c: "page_calls (length ks - off) ?p
               = Suc (page_calls (length ks - (off + ?p)) ?p)"
      using ceil_div_step[of ?p "length ks - off"] p lt by simp
    have call: "call_list (Some (mem_kv sid)) pfx cur (Some 1000) w
            = (Inr \<lparr>keys = take ?p (drop off ks), list_complete = False,
                     cursor = Some (replicate (off + ?p) (CHR ''c''))\<rparr>, logged (OpList sid) w)"
      using less.prems(1) False
      by (simp add: call_list_def mem_kv_def mem_list_def ks off Let_def)
    have tr: "truthy (Some (replicate (off + ?p) (CHR ''c'')))"
      using p by (simp add: truthy_def)
    have IH: "listAllKeys_loop (Some (mem_kv sid)) pfx (acc @ take ?p (drop off ks))
                (Some (replicate (off + ?p) (CHR ''c''))) (logged (OpList sid) w)
              = Some (Inr ((acc @ take ?p (drop off ks)) @ drop (off + ?p) ks),
                   (logged (OpList sid) w)\<lparr>oplog := oplog (logged (OpList sid) w) @
                        replicate (page_calls (length ks - (off + ?p))
                            (min 1000 (page_cap (logged (OpList sid) w)))) (OpList sid)\<rparr>)"
      using less.prems(1,2) lt p
      by (intro less.hyps) (simp_all add: ks)
    show ?thesis
      apply (subst listAllKeys_loop.simps)
      apply (simp only: call prod.case sum.case Let_def list_result.simps if_False tr if_True IH c)
      apply (simp add: tk logged_oplog_update)
      done
  qed
qed

lemma listAllKeys_mem:
  assumes "\<not> faults w (OpList sid)" and "0 < page_cap w"
  shows "listAllKeys (Some (mem_kv sid)) pfx w
           = Some (Inr (filter (matches pfx) (store_keys w sid)),
                   w\<lparr>oplog := oplog w @
                        replicate (page_calls (length (filter (matches pfx) (store_keys w sid)))
                                            (min 1000 (page_cap w)))
                          (OpList sid)\<rparr>)"
  unfolding listAllKeys_def
  using mem_loop[OF assms refl, of 0 None pfx "[]"] by simp

lemma example_world_fields:
  "oplog example_world = []" "page_cap example_world = 2"
  "\<not> faults example_world (OpList ''liu-store'')"
  "\<not> faults example_world (OpList ''ico-store'')"
  "\<not> faults example_world (OpList ''hmcts-store'')"
  "faults example_world (OpList ''phso-store'')"
  "store_keys example_world ''ico-store'' = []"
  "store_keys example_world ''hmcts-store'' = [''only'']"
  "store_keys example_world ''liu-store'' = [''email:1'', ''note'', ''email:2'']"
  by (simp_all add: example_world_def store_keys_def)

text \<open>
  The ICO store of the example world is empty. \<open>listAllKeys\<close> makes one page call on
  it, whereas no page is needed to hold no key.
\<close>

theorem listAllKeys_empty_store_example:
  "listAllKeys (Some (mem_kv ''ico-store'')) None example_world
       = Some (Inr [], example_world\<lparr>oplog := [OpList ''ico-store'']\<rparr>)
   \<and> ceil_div (length (store_keys example_world ''ico-store'')) (min 1000 (page_cap example_world)) = 0"
proof -
  have f: "\<not> faults example_world (OpList ''ico-store'')" "0 < page_cap example_world"
    by (simp_all add: example_world_fields)
  have c: "page_calls 0 2 = Suc 0" by (simp add: page_calls_def ceil_div_def)
  have "listAllKeys (Some (mem_kv ''ico-store'')) None example_world
       = Some (Inr [], example_world\<lparr>oplog := [OpList ''ico-store'']\<rparr>)"
    by (simp add: listAllKeys_mem[OF f] example_world_fields c)
  then show ?thesis by (simp add: example_world_fields ceil_div_def)
qed

text \<open>
  Claim C8, amended. For every reference store and prefix, with \<open>N\<close> matching keys and
  pages of \<open>P\<close> keys (the store's page size, at most the 1000 that the loop asks for),
  \<open>listAllKeys\<close> returns exactly the \<open>N\<close> matching keys, in the order of the store,
  none twice when the store holds none twice and none left out, the cursor of each page
  having led to the next; it makes \<open>ceil(N/P)\<close> page calls, and one page call when
  there is no key at all. It writes nothing.
\<close>

theorem listAllKeys_exact:
  assumes "\<not> faults w (OpList sid)" and "0 < page_cap w"
  shows "\<exists>ks w'. listAllKeys (Some (mem_kv sid)) pfx w = Some (Inr ks, w')
           \<and> ks = filter (matches pfx) (store_keys w sid)
           \<and> (distinct (store_keys w sid) \<longrightarrow> distinct ks)
           \<and> stores w' = stores w
           \<and> oplog w' = oplog w @ replicate (page_calls (length ks) (min 1000 (page_cap w)))
                                    (OpList sid)"
  by (simp add: listAllKeys_mem[OF assms])

theorem listAllKeys_exact_witness:
  "\<exists>w'. listAllKeys (Some (mem_kv ''liu-store'')) None example_world
           = Some (Inr [''email:1'', ''note'', ''email:2''], w')
         \<and> oplog w' = [OpList ''liu-store'', OpList ''liu-store'']"
proof -
  have f: "\<not> faults example_world (OpList ''liu-store'')" "0 < page_cap example_world"
    by (simp_all add: example_world_fields)
  have c: "page_calls (length [''email:1'', ''note'', ''email:2''])
             (min 1000 (page_cap example_world)) = 2"
    by (simp add: page_calls_def ceil_div_def example_world_fields)
  from listAllKeys_exact[OF f, of None]
  obtain ks w' where r: "listAllKeys (Some (mem_kv ''liu-store'')) None example_world = Some (Inr ks, w')"
    and k: "ks = filter (matches None) (store_keys example_world ''liu-store'')"
    and o: "oplog w' = oplog example_world @ replicate (page_calls (length ks) (min 1000 (page_cap example_world)))
                                    (OpList ''liu-store'')"
    by blast
  from k have k': "ks = [''email:1'', ''note'', ''email:2'']"
    by (simp add: example_world_fields matches_def)
  from o have "oplog w' = [OpList ''liu-store'', OpList ''liu-store'']"
    unfolding k' c by (simp add: example_world_fields numeral_2_eq_2)
  with r k' show ?thesis by blast
qed

section \<open>Folder statistics\<close>

text \<open>
  Claim C10. For every mapped folder whose binding holds a reference store,
  \<open>email_folder_stats\<close> reports as \<open>emailCount\<close> the number of keys of that store
  that start with \<open>email:\<close>; the other keys of the store are not counted.
\<close>

theorem email_folder_stats_counts_prefix:
  assumes "map_of FOLDER_BINDING_MAP folder = Some m"
    and "env (binding m) = Some (mem_kv sid)"
    and "\<not> faults w (OpList sid)" and "0 < page_cap w"
  shows "\<exists>w'. email_folder_stats env folder w
           = Some (Inr \<lparr>content = FolderStats folder (Some (humanName m)) (Some (binding m))
                                    (length (filter (prefix ''email:'') (store_keys w sid))),
                        isError = False\<rparr>, w')"
proof -
  from assms(1) have idx: "js_index FOLDER_BINDING_MAP folder = Own m" by (simp add: js_index_def)
  have m: "matches (Some ''email:'') = prefix ''email:''" by (simp add: matches_def fun_eq_iff)
  show ?thesis
    by (simp add: email_folder_stats_def idx mapping_binding_def mapping_humanName_def assms(2)
          listAllKeys_mem[OF assms(3,4)] m)
qed

theorem email_folder_stats_counts_prefix_witness:
  "(\<exists>w'. email_folder_stats example_env ''Labels/Liu'' example_world
           = Some (Inr \<lparr>content = FolderStats ''Labels/Liu'' (Some ''Liu Litigation'') (Some ''KV_LIU'') 2,
                        isError = False\<rparr>, w'))
   \<and> length (store_keys example_world ''liu-store'') = 3"
proof -
  have m: "map_of FOLDER_BINDING_MAP ''Labels/Liu''
             = Some \<lparr>binding = ''KV_LIU'', humanName = ''Liu Litigation''\<rparr>"
    by (simp add: FOLDER_BINDING_MAP_def)
  have e: "example_env (binding \<lparr>binding = ''KV_LIU'', humanName = ''Liu Litigation''\<rparr>)
             = Some (mem_kv ''liu-store'')"
    by (simp add: example_env_simps)
  have f: "\<not> faults example_world (OpList ''liu-store'')" "0 < page_cap example_world"
    by (simp_all add: example_world_fields)
  from email_folder_stats_counts_prefix[of "''Labels/Liu''" _ example_env "''liu-store''" example_world,
      OF m e f]
  show ?thesis
    by (simp add: example_world_fields numeral_2_eq_2)
qed

section \<open>Bulk reads\<close>

lemma mem_read_logged [simp]: "mem_read (logged x w) sid k = mem_read w sid k"
  by (simp add: mem_read_def)

lemma bulk_reads_mem:
  "bulk_reads (Some (mem_kv sid)) ks w
     = (map (\<lambda>k. (k, mem_read w sid k)) ks, w\<lparr>oplog := oplog w @ map (OpGet sid) ks\<rparr>)"
proof (induction ks arbitrary: w)
  case Nil
  then show ?case by simp
next
  case (Cons k ks)
  have "call_get (Some (mem_kv sid)) k w = (mem_read w sid k, logged (OpGet sid k) w)"
    by (simp add: call_get_def mem_kv_def mem_get_def)
  then show ?case
    by (simp add: Cons.IH logged_oplog_update)
qed

lemma first_rejection_mem:
  "first_rejection (map (\<lambda>k. (k, mem_read w sid k)) ks)
     = (if \<exists>k \<in> set ks. faults w (OpGet sid k) then Some (StoreFault sid) else None)"
  by (induction ks) (auto simp: mem_read_def)

lemma obj_set_other:
  assumes "k \<noteq> ''__proto__''"
  shows "map_of (props (obj_set n k' v obj)) k = (if k' = k then Some v else map_of (props obj) k)"
  using assms by (cases obj) (auto simp: update_conv')

lemma assign_results_lookup:
  assumes "k \<noteq> ''__proto__''" and "\<forall>x \<in> set ks. \<not> faults w (OpGet sid x)"
  shows "map_of (props (assign_results (map (\<lambda>k. (k, mem_read w sid k)) ks) obj)) k
           = (if k \<in> set ks then Some (map_option entry_value (map_of (stores w sid) k))
              else map_of (props obj) k)"
  using assms(2)
proof (induction ks arbitrary: obj)
  case Nil
  then show ?case by simp
next
  case (Cons x ks)
  then have rd: "mem_read w sid x = Inr (map_option entry_value (map_of (stores w sid) x))"
    by (simp add: mem_read_def)
  from Cons show ?case
    by (simp add: rd obj_set_other[OF assms(1)])
qed

text \<open>
  In the example world the read of \<open>note\<close> is rejected: a bulk get of two keys, one
  of them \<open>note\<close>, fails as a whole and delivers no entry for the other key.
\<close>

theorem bulk_get_one_failure_example:
  "fst (kv_keys_bulk_get_tool example_env ''liu'' [''email:1'', ''note''] example_world)
     = Inl (StoreFault ''liu-store'')"
  by (simp add: kv_keys_bulk_get_tool_def kv_keys_bulk_get_def resolve_example_liu
        as_namespace_def call_get_def mem_kv_def mem_get_def mem_read_def example_world_def)

text \<open>
  The key \<open>__proto__\<close> is read like any other key, but the assignment
  \<open>results["__proto__"] = null\<close> creates no property: the answer has no entry for it.
\<close>

lemma bulk_get_proto_example:
  "fst (kv_keys_bulk_get_tool example_env ''liu'' [''__proto__''] example_world)
     = Inr \<lparr>content = BulkResults [], isError = False\<rparr>"
  by (simp add: kv_keys_bulk_get_tool_def kv_keys_bulk_get_def resolve_example_liu
        as_namespace_def call_get_def mem_kv_def mem_get_def mem_read_def example_world_def
        empty_obj_def)

text \<open>
  Claim C2, amended. For every list of at most 100 keys read from a reference store:
  when every read succeeds, the bulk get returns an entry for every requested key (other
  than \<open>__proto__\<close>, about which nothing is said), holding the value or \<open>null\<close>;
  when the read of some key fails, the call as a whole fails with a thrown fault and
  returns no entry at all.
\<close>

theorem bulk_get_all_or_nothing:
  assumes "resolveKV env namespace = Inr (Own (mem_kv sid))" and "length ks \<le> 100"
  shows "((\<forall>k \<in> set ks. \<not> faults w (OpGet sid k)) \<longrightarrow>
            (\<exists>results. fst (kv_keys_bulk_get_tool env namespace ks w)
                          = Inr \<lparr>content = BulkResults results, isError = False\<rparr>
               \<and> (\<forall>k \<in> set ks. k \<noteq> ''__proto__'' \<longrightarrow>
                     map_of results k = Some (map_option entry_value (map_of (stores w sid) k)))))
       \<and> ((\<exists>k \<in> set ks. faults w (OpGet sid k)) \<longrightarrow>
            fst (kv_keys_bulk_get_tool env namespace ks w) = Inl (StoreFault sid))"
proof (intro conjI impI)
  assume ok: "\<forall>k \<in> set ks. \<not> faults w (OpGet sid k)"
  let ?results = "props (assign_results (map (\<lambda>k. (k, mem_read w sid k)) ks) empty_obj)"
  have "fst (kv_keys_bulk_get_tool env namespace ks w)
          = Inr \<lparr>content = BulkResults ?results, isError = False\<rparr>"
    using assms ok
    by (simp add: kv_keys_bulk_get_tool_def kv_keys_bulk_get_def as_namespace_def bulk_reads_mem
          first_rejection_mem)
  moreover have "\<forall>k \<in> set ks. k \<noteq> ''__proto__'' \<longrightarrow>
      map_of ?results k = Some (map_option entry_value (map_of (stores w sid) k))"
    using ok by (simp add: assign_results_lookup)
  ultimately show "\<exists>results. fst (kv_keys_bulk_get_tool env namespace ks w)
                          = Inr \<lparr>content = BulkResults results, isError = False\<rparr>
               \<and> (\<forall>k \<in> set ks. k \<noteq> ''__proto__'' \<longrightarrow>
                     map_of results k = Some (map_option entry_value (map_of (stores w sid) k)))"
    by blast
next
  assume "\<exists>k \<in> set ks. faults w (OpGet sid k)"
  with assms show "fst (kv_keys_bulk_get_tool env namespace ks w) = Inl (StoreFault sid)"
    by (simp add: kv_keys_bulk_get_tool_def kv_keys_bulk_get_def as_namespace_def bulk_reads_mem
          first_rejection_mem)
qed

theorem bulk_get_all_or_nothing_witness:
  "(\<exists>results. fst (kv_keys_bulk_get_tool example_env ''liu'' [''email:1'', ''gone''] example_world)
                = Inr \<lparr>content = BulkResults results, isError = False\<rparr>
        \<and> map_of results ''email:1'' = Some (Some ''m1'') \<and> map_of results ''gone'' = Some None)
   \<and> fst (kv_keys_bulk_get_tool example_env ''liu'' [''email:1'', ''note''] example_world)
        = Inl (StoreFault ''liu-store'')"
proof -
  have len: "length [''email:1'', ''gone''] \<le> 100" "length [''email:1'', ''note''] \<le> 100"
    by simp_all
  have ok: "\<forall>k \<in> set [''email:1'', ''gone'']. \<not> faults example_world (OpGet ''liu-store'' k)"
    by (simp add: example_world_def)
  have bad: "\<exists>k \<in> set [''email:1'', ''note'']. faults example_world (OpGet ''liu-store'' k)"
    by (simp add: example_world_def)
  from bulk_get_all_or_nothing[OF resolve_example_liu len(1), of example_world] ok
  obtain results where r: "fst (kv_keys_bulk_get_tool example_env ''liu'' [''email:1'', ''gone''] example_world)
                = Inr \<lparr>content = BulkResults results, isError = False\<rparr>"
    and l: "\<forall>k \<in> set [''email:1'', ''gone'']. k \<noteq> ''__proto__'' \<longrightarrow>
             map_of results k = Some (map_option entry_value (map_of (stores example_world ''liu-store'') k))"
    by blast
  from l have "map_of results ''email:1'' = Some (Some ''m1'')" "map_of results ''gone'' = Some None"
    by (simp_all add: example_world_def)
  moreover from bulk_get_all_or_nothing[OF resolve_example_liu len(2), of example_world] bad
  have "fst (kv_keys_bulk_get_tool example_env ''liu'' [''email:1'', ''note''] example_world)
        = Inl (StoreFault ''liu-store'')" by blast
  ultimately show ?thesis using r by blast
qed

section \<open>Split write\<close>

lemma example_env_bodies: "example_env ''EMAIL_BODIES'' = Some (mem_kv ''bodies-store'')"
  by (simp add: example_env_def mem_env_def example_table_def)

lemma labels_liu: "map_of FOLDER_BINDING_MAP ''Labels/Liu''
             = Some \<lparr>binding = ''KV_LIU'', humanName = ''Liu Litigation''\<rparr>"
  by (simp add: FOLDER_BINDING_MAP_def)

text \<open>
  Claim C1. For every mapped folder whose binding holds a reference store that accepts
  the metadata put: the metadata put into the folder's store comes first and the body
  put into the store under \<open>EMAIL_BODIES\<close> second, as the log of operations shows.
  When the body put fails, because the bodies store rejects it or because there is no
  binding \<open>EMAIL_BODIES\<close>, the call fails with that error, and the metadata entry
  stays in the folder's store, its side metadata naming the body key, while nothing has
  been written under the body key.
\<close>

theorem email_store_metadata_first:
  assumes "map_of FOLDER_BINDING_MAP folder = Some m"
    and "env (binding m) = Some (mem_kv sf)"
    and "\<not> faults w (OpPut sf key)"
  shows "(env ''EMAIL_BODIES'' = Some (mem_kv sb) \<longrightarrow> \<not> faults w (OpPut sb body_key) \<longrightarrow>
            (\<exists>w'. email_store env t1 t2 folder key md body_key body w
                     = (Inr \<lparr>content = StoreSuccess key body_key, isError = False\<rparr>, w')
                 \<and> oplog w' = oplog w @ [OpPut sf key, OpPut sb body_key]))
       \<and> (env ''EMAIL_BODIES'' = Some (mem_kv sb) \<longrightarrow> faults w (OpPut sb body_key) \<longrightarrow>
            (\<exists>w'. email_store env t1 t2 folder key md body_key body w = (Inl (StoreFault sb), w')
                 \<and> oplog w' = oplog w @ [OpPut sf key, OpPut sb body_key]
                 \<and> map_of (stores w' sf) key
                     = Some \<lparr>entry_value = md,
                             entry_metadata = Some (folder_side_metadata folder body_key t1)\<rparr>
                 \<and> map_of (folder_side_metadata folder body_key t1) ''body_uuid'' = Some (Some body_key)
                 \<and> map_of (stores w' sb) body_key = map_of (stores w sb) body_key))
       \<and> (env ''EMAIL_BODIES'' = None \<longrightarrow>
            (\<exists>w'. email_store env t1 t2 folder key md body_key body w = (Inl (TypeError ''put''), w')
                 \<and> oplog w' = oplog w @ [OpPut sf key]
                 \<and> map_of (stores w' sf) key
                     = Some \<lparr>entry_value = md,
                             entry_metadata = Some (folder_side_metadata folder body_key t1)\<rparr>))"
proof -
  from assms(1) have idx: "js_index FOLDER_BINDING_MAP folder = Own m" by (simp add: js_index_def)
  let ?e = "\<lparr>entry_value = md, entry_metadata = Some (folder_side_metadata folder body_key t1)\<rparr>"
  let ?w1 = "logged (OpPut sf key) (w\<lparr>stores := (stores w)(sf := AList.update key ?e (stores w sf))\<rparr>)"
  have put1: "call_put (env (mapping_binding (Own m))) key md
                 (Some (folder_side_metadata folder body_key t1)) w = (Inr (), ?w1)"
    using assms(2,3) by (simp add: call_put_def mapping_binding_def mem_kv_def mem_put_def)
  have present: "map_of (stores ?w1 sf) key = Some ?e"
    by (simp add: update_conv')
  have f1: "faults ?w1 = faults w" by simp
  show ?thesis
  proof (intro conjI impI)
    assume b: "env ''EMAIL_BODIES'' = Some (mem_kv sb)" and ok: "\<not> faults w (OpPut sb body_key)"
    then show "\<exists>w'. email_store env t1 t2 folder key md body_key body w
                     = (Inr \<lparr>content = StoreSuccess key body_key, isError = False\<rparr>, w')
                 \<and> oplog w' = oplog w @ [OpPut sf key, OpPut sb body_key]"
      by (simp add: email_store_def idx put1 call_put_def[of "Some x" for x] mem_kv_def mem_put_def)
  next
    assume b: "env ''EMAIL_BODIES'' = Some (mem_kv sb)" and bad: "faults w (OpPut sb body_key)"
    from bad assms(3) have ne: "sb \<noteq> sf \<or> body_key \<noteq> key" by auto
    have res: "email_store env t1 t2 folder key md body_key body w
                 = (Inl (StoreFault sb), logged (OpPut sb body_key) ?w1)"
      using b bad
      by (simp add: email_store_def idx put1 call_put_def[of "Some x" for x] mem_kv_def mem_put_def)
    have same: "map_of (stores ?w1 sb) body_key = map_of (stores w sb) body_key"
      using ne by (auto simp: update_conv')
    show "\<exists>w'. email_store env t1 t2 folder key md body_key body w = (Inl (StoreFault sb), w')
                 \<and> oplog w' = oplog w @ [OpPut sf key, OpPut sb body_key]
                 \<and> map_of (stores w' sf) key = Some ?e
                 \<and> map_of (folder_side_metadata folder body_key t1) ''body_uuid'' = Some (Some body_key)
                 \<and> map_of (stores w' sb) body_key = map_of (stores w sb) body_key"
      unfolding res using present same
      by (simp add: folder_side_metadata_def)
  next
    assume b: "env ''EMAIL_BODIES'' = None"
    have res: "email_store env t1 t2 folder key md body_key body w = (Inl (TypeError ''put''), ?w1)"
      using b by (simp add: email_store_def idx put1 call_put_def[of None])
    show "\<exists>w'. email_store env t1 t2 folder key md body_key body w = (Inl (TypeError ''put''), w')
                 \<and> oplog w' = oplog w @ [OpPut sf key]
                 \<and> map_of (stores w' sf) key = Some ?e"
      unfolding res using present by simp
  qed
qed

theorem email_store_metadata_first_witness:
  "(\<exists>w'. email_store example_env ''t1'' ''t2'' ''Labels/Liu'' ''k1'' ''md'' ''b2'' ''body'' example_world
            = (Inr \<lparr>content = StoreSuccess ''k1'' ''b2'', isError = False\<rparr>, w')
        \<and> oplog w' = [OpPut ''liu-store'' ''k1'', OpPut ''bodies-store'' ''b2''])
   \<and> (\<exists>w'. email_store example_env ''t1'' ''t2'' ''Labels/Liu'' ''k1'' ''md'' ''b1'' ''body'' example_world
            = (Inl (StoreFault ''bodies-store''), w')
        \<and> map_of (stores w' ''liu-store'') ''k1''
             = Some \<lparr>entry_value = ''md'',
                     entry_metadata = Some (folder_side_metadata ''Labels/Liu'' ''b1'' ''t1'')\<rparr>
        \<and> map_of (stores w' ''bodies-store'') ''b1'' = None)
   \<and> (\<exists>w'. email_store declared_env ''t1'' ''t2'' ''Labels/Liu'' ''k1'' ''md'' ''b1'' ''body'' example_world
            = (Inl (TypeError ''put''), w')
        \<and> map_of (stores w' ''KV_LIU'') ''k1''
             = Some \<lparr>entry_value = ''md'',
                     entry_metadata = Some (folder_side_metadata ''Labels/Liu'' ''b1'' ''t1'')\<rparr>)"
proof -
  let ?m = "\<lparr>binding = ''KV_LIU'', humanName = ''Liu Litigation''\<rparr>"
  have e: "example_env (binding ?m) = Some (mem_kv ''liu-store'')"
    by (simp add: example_env_simps)
  have d: "declared_env (binding ?m) = Some (mem_kv ''KV_LIU'')"
    "declared_env ''EMAIL_BODIES'' = None"
    by (simp_all add: declared_env_def Env_bindings_def)
  have f: "\<not> faults example_world (OpPut ''liu-store'' ''k1'')"
    "\<not> faults example_world (OpPut ''KV_LIU'' ''k1'')"
    "\<not> faults example_world (OpPut ''bodies-store'' ''b2'')"
    "faults example_world (OpPut ''bodies-store'' ''b1'')"
    by (simp_all add: example_world_def)
  have o: "oplog example_world = []" "stores example_world ''bodies-store'' = []"
    by (simp_all add: example_world_def)
  note A = email_store_metadata_first[of "''Labels/Liu''" ?m example_env "''liu-store''" example_world
      "''k1''" "''bodies-store''" "''b2''" "''t1''" "''t2''" "''md''" "''body''", OF labels_liu e f(1)]
  note B = email_store_metadata_first[of "''Labels/Liu''" ?m example_env "''liu-store''" example_world
      "''k1''" "''bodies-store''" "''b1''" "''t1''" "''t2''" "''md''" "''body''", OF labels_liu e f(1)]
  note C = email_store_metadata_first[of "''Labels/Liu''" ?m declared_env "''KV_LIU''" example_world
      "''k1''" "''bodies-store''" "''b1''" "''t1''" "''t2''" "''md''" "''body''", OF labels_liu d(1) f(2)]
  from A example_env_bodies f(3) o(1)
  have 1: "\<exists>w'. email_store example_env ''t1'' ''t2'' ''Labels/Liu'' ''k1'' ''md'' ''b2'' ''body'' example_world
            = (Inr \<lparr>content = StoreSuccess ''k1'' ''b2'', isError = False\<rparr>, w')
        \<and> oplog w' = [OpPut ''liu-store'' ''k1'', OpPut ''bodies-store'' ''b2'']"
    by simp
  from B example_env_bodies f(4) o
  have 2: "\<exists>w'. email_store example_env ''t1'' ''t2'' ''Labels/Liu'' ''k1'' ''md'' ''b1'' ''body'' example_world
            = (Inl (StoreFault ''bodies-store''), w')
        \<and> map_of (stores w' ''liu-store'') ''k1''
             = Some \<lparr>entry_value = ''md'',
                     entry_metadata = Some (folder_side_metadata ''Labels/Liu'' ''b1'' ''t1'')\<rparr>
        \<and> map_of (stores w' ''bodies-store'') ''b1'' = None"
    by auto
  from C d(2)
  have 3: "\<exists>w'. email_store declared_env ''t1'' ''t2'' ''Labels/Liu'' ''k1'' ''md'' ''b1'' ''body'' example_world
            = (Inl (TypeError ''put''), w')
        \<and> map_of (stores w' ''KV_LIU'') ''k1''
             = Some \<lparr>entry_value = ''md'',
                     entry_metadata = Some (folder_side_metadata ''Labels/Liu'' ''b1'' ''t1'')\<rparr>"
    by auto
  from 1 2 3 show ?thesis by blast
qed

section \<open>Fleet health scan\<close>

lemma obj_set_lookup_other:
  "k' \<noteq> k \<Longrightarrow> map_of (props (obj_set n k' v obj)) k = map_of (props obj) k"
  by (cases obj) (auto simp: update_conv')

lemma obj_set_lookup_same:
  "k \<noteq> ''__proto__'' \<Longrightarrow> map_of (props (obj_set n k v obj)) k = Some v"
  by (cases obj) (auto simp: update_conv')

lemma spec_health_count_cong:
  "stores w' = stores w \<Longrightarrow> faults w' = faults w
     \<Longrightarrow> spec_health_count tbl w' b = spec_health_count tbl w b"
  by (simp add: spec_health_count_def store_keys_def split: option.split)

text \<open>One round of the loop on a namespace that is not skipped.\<close>

lemma scan_step:
  assumes "0 < page_cap w" and "name \<noteq> ''email-bodies''" and "name \<noteq> ''bridge-accounts''"
  obtains stats' w' where
    "scan (mem_env tbl) ((name, b) # rest) stats w = scan (mem_env tbl) rest stats' w'"
    "name \<noteq> ''__proto__'' \<longrightarrow> map_of (props stats') name = Some (spec_health_count tbl w b)"
    "\<forall>k. k \<noteq> name \<longrightarrow> map_of (props stats') k = map_of (props stats) k"
    "stores w' = stores w" "faults w' = faults w" "page_cap w' = page_cap w"
proof (cases "tbl b")
  case None
  then have "scan (mem_env tbl) ((name, b) # rest) stats w
               = scan (mem_env tbl) rest (obj_set False name (- 1) stats) w"
    using assms(2,3) by (simp add: mem_env_def call_list_def)
  moreover have "spec_health_count tbl w b = - 1" using None by (simp add: spec_health_count_def)
  ultimately show ?thesis
    using that[of "obj_set False name (- 1) stats" w]
    by (simp add: obj_set_lookup_other obj_set_lookup_same)
next
  case (Some sid)
  show ?thesis
  proof (cases "faults w (OpList sid)")
    case True
    then have "scan (mem_env tbl) ((name, b) # rest) stats w
               = scan (mem_env tbl) rest (obj_set False name (- 1) stats) (logged (OpList sid) w)"
      using assms(2,3) Some by (simp add: mem_env_def call_list_def mem_kv_def mem_list_def)
    moreover have "spec_health_count tbl w b = - 1"
      using Some True by (simp add: spec_health_count_def)
    ultimately show ?thesis
      using that[of "obj_set False name (- 1) stats" "logged (OpList sid) w"]
      by (simp add: obj_set_lookup_other obj_set_lookup_same)
  next
    case False
    let ?ks = "store_keys w sid"
    let ?n = "int (length (take 1 ?ks))"
    let ?s1 = "obj_set False name ?n stats"
    let ?s2 = "if \<not> length ?ks \<le> 1 then obj_set False name (- 1) ?s1 else ?s1"
    have m1: "min (Suc 0) (page_cap w) = Suc 0" using assms(1) by simp
    have call: "call_list (mem_env tbl b) None None (Some 1) w
                  = (Inr \<lparr>keys = take 1 ?ks, list_complete = (length ?ks \<le> 1),
                           cursor = (if length ?ks \<le> 1 then None else Some (replicate 1 (CHR ''c'')))\<rparr>,
                     logged (OpList sid) w)"
      using Some False
      by (simp add: mem_env_def call_list_def mem_kv_def mem_list_def matches_def m1 Let_def
            del: replicate.simps)
    have sc: "scan (mem_env tbl) ((name, b) # rest) stats w
               = scan (mem_env tbl) rest ?s2 (logged (OpList sid) w)"
      using assms(2,3) call by (simp add: Let_def del: replicate.simps)
    have v: "name \<noteq> ''__proto__'' \<longrightarrow> map_of (props ?s2) name = Some (spec_health_count tbl w b)"
    proof
      assume np: "name \<noteq> ''__proto__''"
      consider "length ?ks = 0" | "length ?ks = 1" | "2 \<le> length ?ks" by linarith
      then show "map_of (props ?s2) name = Some (spec_health_count tbl w b)"
      proof cases
        case 1
        then show ?thesis using Some False np
          by (simp add: spec_health_count_def obj_set_lookup_same)
      next
        case 2
        then show ?thesis using Some False np
          by (simp add: spec_health_count_def obj_set_lookup_same)
      next
        case 3
        then have "store_keys w sid \<noteq> []" by auto
        with 3 show ?thesis using Some False np
          by (simp add: spec_health_count_def obj_set_lookup_same)
      qed
    qed
    have o: "\<forall>k. k \<noteq> name \<longrightarrow> map_of (props ?s2) k = map_of (props stats) k"
      by (simp add: obj_set_lookup_other)
    show ?thesis
      using that[of ?s2 "logged (OpList sid) w"] sc v o by simp
  qed
qed

lemma scan_keeps_others:
  assumes "name \<notin> fst ` set es"
  shows "map_of (props (fst (scan env es stats w))) name = map_of (props stats) name"
  using assms
proof (induction es arbitrary: stats w)
  case Nil
  then show ?case by simp
next
  case (Cons e es)
  obtain n b where e: "e = (n, b)" by (cases e)
  with Cons.prems have ne: "n \<noteq> name" and rest: "name \<notin> fst ` set es" by auto
  show ?case
    unfolding e
    by (simp add: Cons.IH[OF rest] obj_set_lookup_other[OF ne] Let_def split: prod.split sum.split)
qed

lemma scan_reports:
  assumes "distinct (map fst es)" and "(name, b) \<in> set es"
    and "name \<noteq> ''email-bodies''" and "name \<noteq> ''bridge-accounts''" and "name \<noteq> ''__proto__''"
    and "0 < page_cap w"
  shows "map_of (props (fst (scan (mem_env tbl) es stats w))) name
           = Some (spec_health_count tbl w b)"
  using assms(1,2,6)
proof (induction es arbitrary: stats w)
  case Nil
  then show ?case by simp
next
  case (Cons e es)
  obtain n b' where e: "e = (n, b')" by (cases e)
  show ?case
  proof (cases "(name, b) = e")
    case True
    then have nb: "n = name" "b' = b" using e by simp_all
    from Cons.prems(1) e nb have rest: "name \<notin> fst ` set es" by simp
    from scan_step[OF Cons.prems(3) assms(3,4), of tbl b es stats]
    obtain stats' w' where
      s: "scan (mem_env tbl) ((name, b) # es) stats w = scan (mem_env tbl) es stats' w'"
      and v: "name \<noteq> ''__proto__'' \<longrightarrow> map_of (props stats') name = Some (spec_health_count tbl w b)"
      by blast
    show ?thesis
      unfolding e nb s using v assms(5) by (simp add: scan_keeps_others[OF rest])
  next
    case False
    with Cons.prems(2) have mem: "(name, b) \<in> set es" by simp
    from Cons.prems(1) have d: "distinct (map fst es)" by simp
    show ?thesis
    proof (cases "n = ''email-bodies'' \<or> n = ''bridge-accounts''")
      case True
      then have "scan (mem_env tbl) (e # es) stats w = scan (mem_env tbl) es stats w"
        unfolding e by auto
      then show ?thesis using Cons.IH[OF d mem Cons.prems(3)] by simp
    next
      case False
      then have n: "n \<noteq> ''email-bodies''" "n \<noteq> ''bridge-accounts''" by simp_all
      from scan_step[OF Cons.prems(3) n, of tbl b' es stats]
      obtain stats' w' where
        s: "scan (mem_env tbl) ((n, b') # es) stats w = scan (mem_env tbl) es stats' w'"
        and w': "stores w' = stores w" "faults w' = faults w" "page_cap w' = page_cap w"
        by blast
      from w'(3) Cons.prems(3) have pc: "0 < page_cap w'" by simp
      show ?thesis
        unfolding e s using Cons.IH[OF d mem pc, of stats']
        by (simp add: spec_health_count_cong[OF w'(1,2)])
    qed
  qed
qed

lemma NAMESPACE_MAP_distinct: "distinct (map fst NAMESPACE_MAP)"
  by (simp add: NAMESPACE_MAP_def)

lemma NAMESPACE_MAP_no_proto: "(name, b) \<in> set NAMESPACE_MAP \<Longrightarrow> name \<noteq> ''__proto__''"
  by (auto simp: NAMESPACE_MAP_def)

text \<open>
  Claim C5. For every registered namespace other than \<open>email-bodies\<close> and
  \<open>bridge-accounts\<close>, in every environment of reference stores that honour a page
  limit of one, \<open>pipeline_status\<close> returns normally and records for the namespace
  the count of the spec: \<open>0\<close> for a store without keys, \<open>1\<close> for a store with one
  key, \<open>-1\<close> for a store with two or more, and \<open>-1\<close> when the probe fails or the
  binding is missing. The value depends on that namespace alone: failures of the other
  namespaces do not change it and do not abort the scan.
\<close>

theorem pipeline_status_counts:
  assumes "0 < page_cap w" and "(name, b) \<in> set NAMESPACE_MAP"
    and "name \<noteq> ''email-bodies''" and "name \<noteq> ''bridge-accounts''"
  shows "\<exists>stats w'. pipeline_status (mem_env tbl) w
                       = (Inr \<lparr>content = PipelineStatus stats, isError = False\<rparr>, w')
           \<and> map_of stats name = Some (spec_health_count tbl w b)"
proof -
  obtain stats w' where sc: "scan (mem_env tbl) NAMESPACE_MAP empty_obj w = (stats, w')"
    by (cases "scan (mem_env tbl) NAMESPACE_MAP empty_obj w")
  have "map_of (props (fst (scan (mem_env tbl) NAMESPACE_MAP empty_obj w))) name
          = Some (spec_health_count tbl w b)"
    using NAMESPACE_MAP_distinct assms(2,3,4) NAMESPACE_MAP_no_proto[OF assms(2)] assms(1)
    by (rule scan_reports)
  with sc show ?thesis by (simp add: pipeline_status_def)
qed

theorem pipeline_status_counts_witness:
  "\<exists>stats w'. pipeline_status example_env example_world
                 = (Inr \<lparr>content = PipelineStatus stats, isError = False\<rparr>, w')
     \<and> map_of stats ''ico'' = Some 0
     \<and> map_of stats ''hmcts'' = Some 1
     \<and> map_of stats ''liu'' = Some (- 1)
     \<and> map_of stats ''phso'' = Some (- 1)
     \<and> map_of stats ''gld'' = Some (- 1)"
proof -
  have pc: "0 < page_cap example_world" by (simp add: example_world_fields)
  have mem: "(''ico'', ''KV_ICO'') \<in> set NAMESPACE_MAP" "(''hmcts'', ''KV_HMCTS'') \<in> set NAMESPACE_MAP"
    "(''liu'', ''KV_LIU'') \<in> set NAMESPACE_MAP" "(''phso'', ''KV_PHSO'') \<in> set NAMESPACE_MAP"
    "(''gld'', ''KV_GLD'') \<in> set NAMESPACE_MAP"
    by (simp_all add: NAMESPACE_MAP_def)
  have cnt: "spec_health_count example_table example_world ''KV_ICO'' = 0"
    "spec_health_count example_table example_world ''KV_HMCTS'' = 1"
    "spec_health_count example_table example_world ''KV_LIU'' = - 1"
    "spec_health_count example_table example_world ''KV_PHSO'' = - 1"
    "spec_health_count example_table example_world ''KV_GLD'' = - 1"
    by (simp_all add: spec_health_count_def example_table_def example_world_fields)
  obtain r w' where p: "pipeline_status example_env example_world = (r, w')"
    by (cases "pipeline_status example_env example_world")
  from pipeline_status_counts[OF pc mem(1), of example_table] p cnt(1)
  obtain stats where s: "r = Inr \<lparr>content = PipelineStatus stats, isError = False\<rparr>"
    and 1: "map_of stats ''ico'' = Some 0"
    by (auto simp: example_env_def)
  from pipeline_status_counts[OF pc mem(2), of example_table] p s cnt(2)
  have 2: "map_of stats ''hmcts'' = Some 1" by (auto simp: example_env_def)
  from pipeline_status_counts[OF pc mem(3), of example_table] p s cnt(3)
  have 3: "map_of stats ''liu'' = Some (- 1)" by (auto simp: example_env_def)
  from pipeline_status_counts[OF pc mem(4), of example_table] p s cnt(4)
  have 4: "map_of stats ''phso'' = Some (- 1)" by (auto simp: example_env_def)
  from pipeline_status_counts[OF pc mem(5), of example_table] p s cnt(5)
  have 5: "map_of stats ''gld'' = Some (- 1)" by (auto simp: example_env_def)
  from p s 1 2 3 4 5 show ?thesis by blast
qed

end
